theory Spec2Isabelle
  imports Main "HOL-Library.Sublist" "HOL-Library.AList" "HOL-Library.Word"
    "HOL-Library.Char_ord" "HOL-Library.List_Lexorder"
begin

section \<open>Strings\<close>

text \<open>
  A JavaScript string is modelled as a \<^typ>\<open>string\<close>: a list of 8-bit code units read
  as Latin-1, which is what an HTTP header value holds. The string methods the program
  calls are written out below with the results JavaScript gives on such strings.
\<close>

text \<open>\<^verbatim>\<open>if (s)\<close> on a value that is a string or \<^verbatim>\<open>undefined\<close>: both \<^verbatim>\<open>undefined\<close> and
  the empty string are falsy.\<close>

fun truthy :: "string option \<Rightarrow> bool" where
  "truthy None = False"
| "truthy (Some s) = (s \<noteq> [])"

text \<open>\<^verbatim>\<open>toLowerCase\<close>: on Latin-1 the letters A-Z and the accented capitals 0xC0-0xDE
  (0xD7, the multiplication sign, apart) move up by 32; every other code unit stays.\<close>

definition toLowerCase_char :: "char \<Rightarrow> char" where
  "toLowerCase_char c =
     (let n = (of_char c :: nat)
      in if (65 \<le> n \<and> n \<le> 90) \<or> (192 \<le> n \<and> n \<le> 222 \<and> n \<noteq> 215)
         then char_of (n + 32) else c)"

definition toLowerCase :: "string \<Rightarrow> string" where
  "toLowerCase s = map toLowerCase_char s"

text \<open>\<^verbatim>\<open>trim\<close> removes white space and line terminators at both ends; below 256 these
  are tab, line feed, vertical tab, form feed, carriage return, space and no-break space.\<close>

definition isWhiteSpace :: "char \<Rightarrow> bool" where
  "isWhiteSpace c = (of_char c \<in> {9, 10, 11, 12, 13, 32, 160 :: nat})"

definition trim :: "string \<Rightarrow> string" where
  "trim s = rev (dropWhile isWhiteSpace (rev (dropWhile isWhiteSpace s)))"

text \<open>\<^verbatim>\<open>s.split(c)\<close> for a separator of one character: the pieces between the
  occurrences of \<open>c\<close>; there is always at least one piece.\<close>

fun split :: "char \<Rightarrow> string \<Rightarrow> string list" where
  "split c [] = [[]]"
| "split c (x # xs) =
     (if x = c then [] # split c xs
      else (let r = split c xs in (x # hd r) # tl r))"

text \<open>\<^verbatim>\<open>s.startsWith(p)\<close> and \<^verbatim>\<open>s.includes(p)\<close>.\<close>

definition startsWith :: "string \<Rightarrow> string \<Rightarrow> bool" where
  "startsWith s p = prefix p s"

fun includes_str :: "string \<Rightarrow> string \<Rightarrow> bool" where
  "includes_str [] p = (p = [])"
| "includes_str (x # xs) p = (prefix p (x # xs) \<or> includes_str xs p)"

text \<open>
  \<^verbatim>\<open>s.replace(pattern, replacement)\<close> with a string pattern replaces the first
  occurrence only, and reads the replacement as a template: \<^verbatim>\<open>$$\<close> stands for a
  dollar sign, \<^verbatim>\<open>$&\<close> for the matched text, \<^verbatim>\<open>$`\<close> for the text before the match
  and \<^verbatim>\<open>$'\<close> for the text after it; with a string pattern there are no groups, so every
  other \<^verbatim>\<open>$\<close> stands for itself. \<open>find_first s p\<close> cuts \<open>s\<close> around the first occurrence of
  \<open>p\<close>.
\<close>

fun find_first :: "string \<Rightarrow> string \<Rightarrow> (string \<times> string) option" where
  "find_first [] p = (if p = [] then Some ([], []) else None)"
| "find_first (x # xs) p =
     (if prefix p (x # xs) then Some ([], drop (length p) (x # xs))
      else (case find_first xs p of
              None \<Rightarrow> None
            | Some (before, after) \<Rightarrow> Some (x # before, after)))"

fun GetSubstitution :: "string \<Rightarrow> string \<Rightarrow> string \<Rightarrow> string \<Rightarrow> string" where
  "GetSubstitution matched before after [] = []"
| "GetSubstitution matched before after [c] = [c]"
| "GetSubstitution matched before after (c # d # t) =
     (if c = CHR ''$'' \<and> d = CHR ''$'' then CHR ''$'' # GetSubstitution matched before after t
      else if c = CHR ''$'' \<and> d = CHR ''&'' then matched @ GetSubstitution matched before after t
      else if c = CHR ''$'' \<and> d = CHR 0x60 then before @ GetSubstitution matched before after t
      else if c = CHR ''$'' \<and> d = CHR 0x27 then after @ GetSubstitution matched before after t
      else c # GetSubstitution matched before after (d # t))"

definition replace :: "string \<Rightarrow> string \<Rightarrow> string \<Rightarrow> string" where
  "replace s p replacement =
     (case find_first s p of
        None \<Rightarrow> s
      | Some (before, after) \<Rightarrow> before @ GetSubstitution p before after replacement @ after)"

text \<open>A template literal prints a number in decimal.\<close>

fun digits :: "nat \<Rightarrow> string" where
  "digits n =
     (if n < 10 then [char_of (48 + n)] else digits (n div 10) @ [char_of (48 + n mod 10)])"

definition ToString :: "int \<Rightarrow> string" where
  "ToString i = (if i < 0 then ''-'' @ digits (nat (- i)) else digits (nat i))"

section \<open>Errors\<close>

text \<open>The exceptions the platform raises in the code modelled here.\<close>

datatype js_error = TypeError | RangeError

section \<open>Header lists and plain objects\<close>

text \<open>
  A \<^verbatim>\<open>Headers\<close> object is a list of name and value pairs. Names are compared without
  regard to case, a name may occur several times, and \<^verbatim>\<open>get\<close> joins the values of a name
  with a comma and a space (those of \<^verbatim>\<open>cookie\<close> with a semicolon and a space). Names and values come from parsed messages or from other
  \<^verbatim>\<open>Headers\<close> objects, so the validation the platform applies to them is not modelled.
\<close>

type_synonym headers = "(string \<times> string) list"

definition header_values :: "headers \<Rightarrow> string \<Rightarrow> string list" where
  "header_values h n = map snd (filter (\<lambda>(k, v). toLowerCase k = n) h)"

fun join_with :: "string \<Rightarrow> string list \<Rightarrow> string" where
  "join_with sep [] = []"
| "join_with sep [v] = v"
| "join_with sep (v # w # vs) = v @ sep @ join_with sep (w # vs)"

definition join_values :: "string \<Rightarrow> string list \<Rightarrow> string" where
  "join_values n vs = join_with (if n = ''cookie'' then ''; '' else '', '') vs"

definition Headers_get :: "headers \<Rightarrow> string \<Rightarrow> string option" where
  "Headers_get h name =
     (let vs = header_values h (toLowerCase name)
      in if vs = [] then None else Some (join_values (toLowerCase name) vs))"

text \<open>\<^verbatim>\<open>append\<close> adds an entry at the end, \<^verbatim>\<open>delete\<close> removes every entry of a name.\<close>

definition Headers_append :: "headers \<Rightarrow> string \<Rightarrow> string \<Rightarrow> headers" where
  "Headers_append h name v = h @ [(name, v)]"

definition Headers_delete :: "headers \<Rightarrow> string \<Rightarrow> headers" where
  "Headers_delete h name = filter (\<lambda>(k, w). toLowerCase k \<noteq> toLowerCase name) h"

text \<open>\<^verbatim>\<open>set\<close> writes the value into the first entry of that name and removes the other
  entries of the name; without such an entry it appends one.\<close>

fun Headers_set :: "headers \<Rightarrow> string \<Rightarrow> string \<Rightarrow> headers" where
  "Headers_set [] name v = [(name, v)]"
| "Headers_set ((k, w) # h) name v =
     (if toLowerCase k = toLowerCase name
      then (k, v) # filter (\<lambda>(k', w'). toLowerCase k' \<noteq> toLowerCase name) h
      else (k, w) # Headers_set h name v)"

text \<open>
  Iterating a \<^verbatim>\<open>Headers\<close> object (\<^verbatim>\<open>entries()\<close>) yields the names in lower case, sorted,
  each once with its values joined; only \<^verbatim>\<open>set-cookie\<close> yields one pair for each of its
  values. \<^verbatim>\<open>new Headers(h)\<close> for a \<^verbatim>\<open>Headers\<close> object \<open>h\<close> appends the pairs of that iteration.
\<close>

definition Headers_entries :: "headers \<Rightarrow> (string \<times> string) list" where
  "Headers_entries h =
     concat (map (\<lambda>n. if n = ''set-cookie'' then map (Pair n) (header_values h n)
                       else [(n, join_values n (header_values h n))])
                 (sort (remdups (map (\<lambda>(k, v). toLowerCase k) h))))"

definition Headers_copy :: "headers \<Rightarrow> headers" where
  "Headers_copy h = Headers_entries h"

text \<open>
  A plain object with string values is the list of its own properties, each key once.
  \<^verbatim>\<open>obj[key] = value\<close> writes or adds the property, but for the key \<^verbatim>\<open>__proto__\<close>
  it calls the setter of \<^verbatim>\<open>Object.prototype\<close>, which ignores a string: the object keeps
  its properties as they were. \<^verbatim>\<open>Object.fromEntries\<close> defines each pair as an own
  property, a later pair replacing an earlier one of the same key. \<^verbatim>\<open>new Headers(obj)\<close>
  appends the properties of \<open>obj\<close> in turn. The order of the properties is not modelled
  beyond the order of insertion.
\<close>

type_synonym js_object = "(string \<times> string) list"

definition assign :: "js_object \<Rightarrow> string \<Rightarrow> string \<Rightarrow> js_object" where
  "assign obj key v = (if key = ''__proto__'' then obj else AList.update key v obj)"

definition Object_fromEntries :: "(string \<times> string) list \<Rightarrow> js_object" where
  "Object_fromEntries es = foldl (\<lambda>obj (k, v). AList.update k v obj) [] es"

definition Headers_of_object :: "js_object \<Rightarrow> headers" where
  "Headers_of_object obj = obj"

section \<open>Configuration\<close>

text \<open>The constants read from the environment when the process starts.\<close>

record config =
  PROTOCOL :: string
  ORIGIN_SERVER :: string
  CACHE_TTL :: int
  CACHE_CLEAR_TOKEN :: string
  CACHE_STRATEGY :: string
  CACHE_STATIC_ONLY :: bool

text \<open>The configuration of a process started with an empty environment: each constant
  takes the default written after its \<^verbatim>\<open>||\<close>.\<close>

definition default_config :: config where
  "default_config =
     \<lparr>PROTOCOL = ''https'', ORIGIN_SERVER = ''hono.dev'', CACHE_TTL = 300,
      CACHE_CLEAR_TOKEN = ''123456'', CACHE_STRATEGY = ''auto'', CACHE_STATIC_ONLY = False\<rparr>"

section \<open>Resource classifier\<close>

definition STATIC_EXTENSIONS :: "string list" where
  "STATIC_EXTENSIONS =
     [''jpg'', ''jpeg'', ''png'', ''gif'', ''bmp'', ''webp'', ''svg'', ''ico'',
      ''woff'', ''woff2'', ''ttf'', ''eot'', ''otf'',
      ''css'', ''js'',
      ''mp4'', ''webm'', ''mp3'', ''wav'', ''ogg'',
      ''pdf'', ''xml'', ''json'', ''txt'', ''csv'', ''zip'', ''gz'', ''tar'', ''rar'', ''7z'']"

definition staticMimeTypes :: "string list" where
  "staticMimeTypes =
     [''image/'', ''font/'', ''application/font-'', ''application/x-font-'',
      ''text/css'', ''application/javascript'', ''text/javascript'',
      ''video/'', ''audio/'', ''application/pdf'', ''application/zip'',
      ''application/x-tar'', ''application/x-rar-compressed'',
      ''application/x-7z-compressed'']"

text \<open>The loop over \<open>staticMimeTypes\<close>: true at the first entry the content type contains.\<close>

fun anyMimeType :: "string \<Rightarrow> string list \<Rightarrow> bool" where
  "anyMimeType contentType [] = False"
| "anyMimeType contentType (mimeType # rest) =
     (if includes_str contentType mimeType then True else anyMimeType contentType rest)"

definition isStaticResource :: "string option \<Rightarrow> string option \<Rightarrow> bool" where
  "isStaticResource path contentType =
     (if truthy path \<and> toLowerCase (last (split CHR ''.'' (the path))) \<in> set STATIC_EXTENSIONS
      then True
      else if truthy contentType then anyMimeType (the contentType) staticMimeTypes
      else False)"

section \<open>Cache policy\<close>

definition directives :: "string \<Rightarrow> string list" where
  "directives cacheControl = map trim (split CHR '','' (toLowerCase cacheControl))"

definition shouldCacheResponse ::
  "config \<Rightarrow> string option \<Rightarrow> string option \<Rightarrow> string option \<Rightarrow> bool" where
  "shouldCacheResponse cfg path contentType cacheControl =
     (if CACHE_STRATEGY cfg = ''off'' then False
      else if CACHE_STATIC_ONLY cfg \<and> \<not> isStaticResource path contentType then False
      else if CACHE_STRATEGY cfg = ''force'' then True
      else if CACHE_STRATEGY cfg = ''auto'' then
        (if \<not> truthy cacheControl then True
         else if ''no-store'' \<in> set (directives (the cacheControl))
               \<or> ''no-cache'' \<in> set (directives (the cacheControl)) then False
         else if ''private'' \<in> set (directives (the cacheControl)) \<and> \<not> CACHE_STATIC_ONLY cfg
         then False
         else True)
      else False)"

text \<open>
  The decision table of the specification, over the three strategies it names. The
  last argument is the directive set of the cache-control header, \<open>None\<close> when the header
  is absent.
\<close>

datatype strategy = Off | Force | Auto

fun strategy_name :: "strategy \<Rightarrow> string" where
  "strategy_name Off = ''off''"
| "strategy_name Force = ''force''"
| "strategy_name Auto = ''auto''"

definition shouldCache_table :: "strategy \<Rightarrow> bool \<Rightarrow> bool \<Rightarrow> string set option \<Rightarrow> bool" where
  "shouldCache_table s staticOnly static ds =
     (if s = Off then False
      else if staticOnly \<and> \<not> static then False
      else if s = Force then True
      else (case ds of
              None \<Rightarrow> True
            | Some d \<Rightarrow>
                if ''no-store'' \<in> d \<or> ''no-cache'' \<in> d then False
                else if ''private'' \<in> d \<and> \<not> staticOnly then False
                else True))"

text \<open>The directive set of a cache-control argument: absent when the argument is
  \<^verbatim>\<open>undefined\<close> or empty, else its comma-separated parts, lower-cased and trimmed.\<close>

definition directive_set :: "string option \<Rightarrow> string set option" where
  "directive_set cacheControl =
     (if truthy cacheControl then Some (set (directives (the cacheControl))) else None)"

text \<open>The extension of a path as the specification words it: the substring after the last
  \<open>.\<close> (all of the path when it has no \<open>.\<close>).\<close>

definition file_extension :: "string \<Rightarrow> string" where
  "file_extension p = rev (takeWhile (\<lambda>c. c \<noteq> CHR ''.'') (rev p))"

section \<open>Requests and responses\<close>

text \<open>
  The inbound request as the handlers read it from the context \<open>c\<close>: \<^verbatim>\<open>c.req.method\<close>,
  \<^verbatim>\<open>c.req.path\<close>, \<^verbatim>\<open>c.req.query(name)\<close> and \<^verbatim>\<open>c.req.raw.headers\<close>. \<^verbatim>\<open>c.req.url\<close> is the
  absolute URL of the request: the scheme and host under which the server was reached
  (the host is the one the client named in its Host header), then the path and the
  query string, which is empty or begins with \<open>?\<close>.
\<close>

record request =
  req_method :: string
  req_scheme :: string
  req_host :: string
  req_path :: string
  req_search :: string
  req_query :: "(string \<times> string) list"
  req_headers :: headers

definition req_url :: "request \<Rightarrow> string" where
  "req_url c = req_scheme c @ ''://'' @ req_host c @ req_path c @ req_search c"

definition query :: "request \<Rightarrow> string \<Rightarrow> string option" where
  "query c name = map_of (req_query c) name"

text \<open>
  What the code reads of \<^verbatim>\<open>new URL(c.req.url)\<close>: the protocol, which ends with a colon, and
  the host. The constructor belongs to the platform; it is a parameter \<open>URL\<close> of the model,
  a function that gives \<open>None\<close> where the constructor raises a \<^verbatim>\<open>TypeError\<close>.
\<close>

record url =
  url_protocol :: string
  url_host :: string

text \<open>A header of the origin's response as the connection pool hands it over: absent, one
  string, or an array of strings when the origin sent the header more than once.\<close>

datatype header_value = Undefined | Str string | Arr "string list"

fun truthy_value :: "header_value \<Rightarrow> bool" where
  "truthy_value Undefined = False"
| "truthy_value (Str s) = (s \<noteq> [])"
| "truthy_value (Arr vs) = True"

text \<open>A response body: none, a stream that delivers the given bytes, or a stream whose
  reading fails. \<^verbatim>\<open>arrayBuffer()\<close> reads it to the end.\<close>

datatype body = Null | Stream "8 word list" | Errored

fun arrayBuffer :: "body \<Rightarrow> js_error + 8 word list" where
  "arrayBuffer Null = Inr []"
| "arrayBuffer (Stream bytes) = Inr bytes"
| "arrayBuffer Errored = Inl TypeError"

record response =
  res_status :: nat
  res_statusText :: string
  res_headers :: headers
  res_body :: body

text \<open>\<^verbatim>\<open>new Response(body, {status, statusText, headers})\<close> raises a \<^verbatim>\<open>RangeError\<close> for a
  status outside 200 to 599 and a \<^verbatim>\<open>TypeError\<close> for a body on a status that has none.\<close>

definition new_Response :: "body \<Rightarrow> nat \<Rightarrow> string \<Rightarrow> headers \<Rightarrow> js_error + response" where
  "new_Response b st txt h =
     (if st < 200 \<or> 599 < st then Inl RangeError
      else if b \<noteq> Null \<and> st \<in> {204, 205, 304} then Inl TypeError
      else Inr \<lparr>res_status = st, res_statusText = txt, res_headers = h, res_body = b\<rparr>)"

text \<open>JSON values, and what a handler returns: \<^verbatim>\<open>c.json(value, status)\<close>,
  \<^verbatim>\<open>c.text(text, status)\<close> or a \<^verbatim>\<open>Response\<close>. \<open>JDate t\<close> is the ISO text of the time \<open>t\<close>.\<close>

datatype json =
  JString string | JNumber int | JBool bool | JDate nat
  | JObject "(string \<times> json) list" | JArray "json list"

datatype reply = c_json json nat | c_text string nat | Res response

text \<open>\<^verbatim>\<open>app.onError\<close> for an error that is no \<^verbatim>\<open>HTTPException\<close>.\<close>

definition onError :: "js_error \<Rightarrow> reply" where
  "onError err = c_json (JObject [(''error'', JString ''Internal Server Error'')]) 500"

section \<open>The cache store\<close>

text \<open>One cached response; the fields are those of the object passed to
  \<^verbatim>\<open>cache.set\<close>.\<close>

record cache_entry =
  entry_body :: "8 word list"
  entry_contentType :: string
  entry_status :: nat
  entry_statusText :: string
  entry_headers :: js_object
  entry_cachedAt :: nat

text \<open>
  The store is the \<^verbatim>\<open>LRUCache\<close> of the library, modelled as the list of its keys and
  entries with \<^verbatim>\<open>get\<close>, \<^verbatim>\<open>set\<close>, \<^verbatim>\<open>clear\<close>, \<^verbatim>\<open>entries\<close> and \<^verbatim>\<open>size\<close>. Expiry and eviction are
  the library's and only ever remove entries; they are not modelled, and what is proved
  of a hit is proved for any store that holds the entry. The constant \<^verbatim>\<open>cache\<close> is
  \<^verbatim>\<open>null\<close> under the strategy \<open>off\<close>, and a call on \<^verbatim>\<open>null\<close> raises a \<^verbatim>\<open>TypeError\<close>. The state
  also records every call made on the store.
\<close>

type_synonym store = "(string \<times> cache_entry) list"

datatype cache_op = OpGet string | OpSet string | OpClear | OpEntries | OpInfo

record app_state =
  cache :: "store option"
  cache_ops :: "cache_op list"

definition init_state :: "config \<Rightarrow> app_state" where
  "init_state cfg =
     \<lparr>cache = (if CACHE_STRATEGY cfg \<noteq> ''off'' then Some [] else None), cache_ops = []\<rparr>"

definition cache_get :: "app_state \<Rightarrow> string \<Rightarrow> js_error + (cache_entry option \<times> app_state)" where
  "cache_get st key =
     (case cache st of
        None \<Rightarrow> Inl TypeError
      | Some s \<Rightarrow> Inr (map_of s key, st\<lparr>cache_ops := cache_ops st @ [OpGet key]\<rparr>))"

definition cache_set :: "app_state \<Rightarrow> string \<Rightarrow> cache_entry \<Rightarrow> js_error + app_state" where
  "cache_set st key entry =
     (case cache st of
        None \<Rightarrow> Inl TypeError
      | Some s \<Rightarrow>
          Inr (st\<lparr>cache := Some (AList.update key entry s),
                  cache_ops := cache_ops st @ [OpSet key]\<rparr>))"

definition cache_clear :: "app_state \<Rightarrow> js_error + app_state" where
  "cache_clear st =
     (case cache st of
        None \<Rightarrow> Inl TypeError
      | Some s \<Rightarrow> Inr (st\<lparr>cache := Some [], cache_ops := cache_ops st @ [OpClear]\<rparr>))"

definition cache_entries :: "app_state \<Rightarrow> js_error + (store \<times> app_state)" where
  "cache_entries st =
     (case cache st of
        None \<Rightarrow> Inl TypeError
      | Some s \<Rightarrow> Inr (s, st\<lparr>cache_ops := cache_ops st @ [OpEntries]\<rparr>))"

section \<open>Cache management endpoints\<close>

definition cache_disabled :: reply where
  "cache_disabled = c_json (JObject [(''error'', JString ''Cache is disabled'')]) 403"

definition get_cache_info :: "config \<Rightarrow> app_state \<Rightarrow> request \<Rightarrow> reply \<times> app_state" where
  "get_cache_info cfg st c =
     (if CACHE_STRATEGY cfg = ''off'' then (cache_disabled, st)
      else if Some (CACHE_CLEAR_TOKEN cfg) \<noteq> query c ''token'' then (c_text ''Unauthorized'' 401, st)
      else (case cache st of
              None \<Rightarrow> (onError TypeError, st)
            | Some s \<Rightarrow>
                (c_json (JObject
                   [(''size'', JNumber (int (length s))),
                    (''max'', JNumber 100),
                    (''ttl'', JNumber (CACHE_TTL cfg * 1000)),
                    (''calculatedSize'', JNumber 0),
                    (''strategy'', JString (CACHE_STRATEGY cfg)),
                    (''staticOnly'', JBool (CACHE_STATIC_ONLY cfg))]) 200,
                 st\<lparr>cache_ops := cache_ops st @ [OpInfo]\<rparr>)))"

definition get_cache_clear :: "config \<Rightarrow> app_state \<Rightarrow> request \<Rightarrow> reply \<times> app_state" where
  "get_cache_clear cfg st c =
     (if CACHE_STRATEGY cfg = ''off'' then (cache_disabled, st)
      else (case cache_clear st of
              Inl err \<Rightarrow> (onError err, st)
            | Inr st' \<Rightarrow>
                (c_json (JObject
                   [(''message'', JString ''Cache cleared successfully''),
                    (''success'', JBool True)]) 200,
                 st')))"

text \<open>The loop of \<^verbatim>\<open>/cache/stats\<close> over the entries of the store.\<close>

fun cacheEntries :: "store \<Rightarrow> json list" where
  "cacheEntries [] = []"
| "cacheEntries ((key, v) # rest) =
     (if startsWith key ''cache:''
      then JObject
             [(''key'', JString (replace key ''cache:'' [])),
              (''contentType'', JString (entry_contentType v)),
              (''cachedAt'', JDate (entry_cachedAt v)),
              (''size'', JNumber (int (length (entry_body v))))] # cacheEntries rest
      else cacheEntries rest)"

definition get_cache_stats :: "config \<Rightarrow> app_state \<Rightarrow> request \<Rightarrow> reply \<times> app_state" where
  "get_cache_stats cfg st c =
     (if CACHE_STRATEGY cfg = ''off'' then (cache_disabled, st)
      else (case cache_entries st of
              Inl err \<Rightarrow> (onError err, st)
            | Inr (s, st') \<Rightarrow>
                (c_json (JObject
                   [(''total'', JNumber (int (length (cacheEntries s)))),
                    (''strategy'', JString (CACHE_STRATEGY cfg)),
                    (''staticOnly'', JBool (CACHE_STATIC_ONLY cfg)),
                    (''entries'', JArray (take 20 (cacheEntries s)))]) 200,
                 st')))"

section \<open>The cache middleware\<close>

text \<open>\<^verbatim>\<open>value || ''\<close> for the result of \<^verbatim>\<open>headers.get\<close>.\<close>

fun or_empty :: "string option \<Rightarrow> string" where
  "or_empty None = []"
| "or_empty (Some v) = v"

definition cacheKey :: "request \<Rightarrow> string" where
  "cacheKey c = ''cache:'' @ req_url c"

text \<open>The branch \<^verbatim>\<open>if (cached)\<close>: the response rebuilt from an entry of the store.\<close>

definition hit_response :: "config \<Rightarrow> string \<Rightarrow> cache_entry \<Rightarrow> js_error + response" where
  "hit_response cfg key cached =
     (let responseHeaders = Headers_of_object (entry_headers cached);
          responseHeaders = Headers_set responseHeaders ''X-Cache'' ''HIT'';
          responseHeaders = Headers_set responseHeaders ''X-Cache-Key'' key;
          responseHeaders = Headers_set responseHeaders ''X-Cache-Strategy'' (CACHE_STRATEGY cfg)
      in new_Response (Stream (entry_body cached)) (entry_status cached)
           (entry_statusText cached) responseHeaders)"

text \<open>The object passed to \<^verbatim>\<open>cache.set\<close>: the body read from the clone, and the status,
  status text and headers of the response as they are at that moment.\<close>

definition captured_entry :: "response \<Rightarrow> 8 word list \<Rightarrow> string \<Rightarrow> nat \<Rightarrow> cache_entry" where
  "captured_entry res bytes ctype now =
     \<lparr>entry_body = bytes,
      entry_contentType = ctype,
      entry_status = res_status res,
      entry_statusText = res_statusText res,
      entry_headers = Object_fromEntries (Headers_entries (res_headers res)),
      entry_cachedAt = now\<rparr>"

text \<open>
  Assigning to \<^verbatim>\<open>c.res\<close> when the context already holds a response runs the setter of
  the framework: the new response keeps its status and body, and every header of the
  earlier response other than \<^verbatim>\<open>content-type\<close> is written over it, the \<^verbatim>\<open>set-cookie\<close>
  entries being removed and appended afresh.
\<close>

fun merge_headers :: "(string \<times> string) list \<Rightarrow> string list \<Rightarrow> headers \<Rightarrow> headers" where
  "merge_headers [] cookies h = h"
| "merge_headers ((k, v) # rest) cookies h =
     (if k = ''content-type'' then merge_headers rest cookies h
      else if k = ''set-cookie''
      then merge_headers rest cookies
             (foldl (\<lambda>h' cookie. Headers_append h' ''set-cookie'' cookie)
                (Headers_delete h ''set-cookie'') cookies)
      else merge_headers rest cookies (Headers_set h k v))"

definition set_res :: "response \<Rightarrow> response \<Rightarrow> response" where
  "set_res old new =
     new\<lparr>res_headers :=
           merge_headers (Headers_entries (res_headers old))
             (header_values (res_headers old) ''set-cookie'') (res_headers new)\<rparr>"

text \<open>
  The code after \<^verbatim>\<open>await next()\<close>, where \<open>res\<close> is \<^verbatim>\<open>c.res\<close> as the handlers downstream
  left it and \<open>now\<close> is \<^verbatim>\<open>Date.now()\<close>. Whatever is raised inside the \<^verbatim>\<open>try\<close> is caught and
  logged: \<^verbatim>\<open>c.res\<close> then stays as it was.
\<close>

definition store_response ::
  "config \<Rightarrow> nat \<Rightarrow> app_state \<Rightarrow> request \<Rightarrow> string \<Rightarrow> response \<Rightarrow> response \<times> app_state" where
  "store_response cfg now st c key res =
     (if res_status res = 200 then
        (let contentType = or_empty (Headers_get (res_headers res) ''content-type'');
             cacheControl = or_empty (Headers_get (res_headers res) ''cache-control'');
             path = req_path c;
             shouldCache = shouldCacheResponse cfg (Some path) (Some contentType) (Some cacheControl)
         in if shouldCache then
              (case arrayBuffer (res_body res) of
                 Inl err \<Rightarrow> (res, st)
               | Inr bytes \<Rightarrow>
                   (case cache_set st key (captured_entry res bytes contentType now) of
                      Inl err \<Rightarrow> (res, st)
                    | Inr st' \<Rightarrow>
                        (let newHeaders = Headers_copy (res_headers res);
                             newHeaders = Headers_set newHeaders ''X-Cache'' ''MISS (Cached)'';
                             newHeaders = Headers_set newHeaders ''X-Cache-Key'' key;
                             newHeaders = Headers_set newHeaders ''X-Cache-Strategy'' (CACHE_STRATEGY cfg);
                             newHeaders =
                               (if CACHE_STRATEGY cfg = ''force''
                                then Headers_set newHeaders ''Cache-Control''
                                       (''public, max-age='' @ ToString (CACHE_TTL cfg))
                                else if CACHE_STRATEGY cfg = ''auto'' \<and> cacheControl = []
                                then Headers_set newHeaders ''Cache-Control''
                                       (''public, max-age='' @ ToString (CACHE_TTL cfg))
                                else newHeaders)
                         in case new_Response (res_body res) (res_status res) (res_statusText res)
                                   newHeaders of
                              Inl err \<Rightarrow> (res, st')
                            | Inr r \<Rightarrow> (set_res res r, st'))))
            else
              (let newHeaders = Headers_copy (res_headers res);
                   newHeaders = Headers_set newHeaders ''X-Cache'' ''BYPASS'';
                   newHeaders = Headers_set newHeaders ''X-Cache-Strategy'' (CACHE_STRATEGY cfg);
                   newHeaders = Headers_set newHeaders ''X-Cache-Reason''
                     (if CACHE_STRATEGY cfg = ''off'' then ''disabled''
                      else if CACHE_STATIC_ONLY cfg \<and> \<not> isStaticResource (Some path) (Some contentType)
                      then ''non-static''
                      else ''cache-control-forbidden'');
                   newHeaders = Headers_set newHeaders ''Cache-Control''
                     ''no-cache, no-store, must-revalidate''
               in case new_Response (res_body res) (res_status res) (res_statusText res)
                         newHeaders of
                    Inl err \<Rightarrow> (res, st)
                  | Inr r \<Rightarrow> (set_res res r, st)))
      else (res, st))"

text \<open>
  The middleware. \<open>next\<close> is the response of the handlers downstream, which are run
  only where the code calls \<^verbatim>\<open>next()\<close>. The lookup in the store stands outside the
  \<^verbatim>\<open>try\<close>, so what it raises leaves the middleware.
\<close>

definition staticCacheMiddleware ::
  "config \<Rightarrow> nat \<Rightarrow> app_state \<Rightarrow> request \<Rightarrow> response \<Rightarrow> js_error + (response \<times> app_state)" where
  "staticCacheMiddleware cfg now st c next =
     (if CACHE_STRATEGY cfg = ''off'' then Inr (next, st)
      else if startsWith (req_path c) ''/cache/'' then Inr (next, st)
      else if req_method c \<noteq> ''GET'' then Inr (next, st)
      else
        (case cache_get st (cacheKey c) of
           Inl err \<Rightarrow> Inl err
         | Inr (cached, st') \<Rightarrow>
             (case cached of
                Some entry \<Rightarrow>
                  (case hit_response cfg (cacheKey c) entry of
                     Inl err \<Rightarrow> Inl err
                   | Inr r \<Rightarrow> Inr (r, st'))
              | None \<Rightarrow> Inr (store_response cfg now st' c (cacheKey c) next))))"

section \<open>Routing\<close>

text \<open>
  The routes in the order of their registration. \<open>proxy\<close> stands for the two proxy
  handlers together with the replies of the framework for an error or an unmatched
  request: it gives the response they leave for a request. Neither proxy handler
  mentions \<^verbatim>\<open>cache\<close>, so \<open>proxy\<close> neither reads nor changes the state.
\<close>

definition dispatch ::
  "config \<Rightarrow> nat \<Rightarrow> (request \<Rightarrow> response) \<Rightarrow> app_state \<Rightarrow> request \<Rightarrow> reply \<times> app_state" where
  "dispatch cfg now proxy st c =
     (if req_method c = ''GET'' \<and> req_path c = ''/health'' then (c_text ''OK'' 200, st)
      else if req_method c = ''GET'' \<and> req_path c = ''/cache/info'' then get_cache_info cfg st c
      else if req_method c = ''GET'' \<and> req_path c = ''/cache/clear'' then get_cache_clear cfg st c
      else if req_method c = ''GET'' \<and> req_path c = ''/cache/stats'' then get_cache_stats cfg st c
      else if req_method c = ''GET'' then
        (case staticCacheMiddleware cfg now st c (proxy c) of
           Inl err \<Rightarrow> (onError err, st)
         | Inr (r, st') \<Rightarrow> (Res r, st'))
      else (Res (proxy c), st))"

text \<open>A run of the server: the requests in the order of their arrival, each with the time
  of its arrival and the behaviour of the origin at that time.\<close>

fun serve ::
  "config \<Rightarrow> app_state \<Rightarrow> (nat \<times> (request \<Rightarrow> response) \<times> request) list \<Rightarrow> reply list \<times> app_state" where
  "serve cfg st [] = ([], st)"
| "serve cfg st ((now, proxy, c) # rest) =
     (let (r, st') = dispatch cfg now proxy st c;
          (rs, st'') = serve cfg st' rest
      in (r # rs, st''))"

section \<open>Header transformation and redirects\<close>

text \<open>The loop of \<open>processHeaders\<close> over the entries of the inbound headers, building the
  plain object \<open>hdrs\<close>.\<close>

fun processHeaders_loop :: "config \<Rightarrow> (string \<times> string) list \<Rightarrow> js_object \<Rightarrow> js_object" where
  "processHeaders_loop cfg [] hdrs = hdrs"
| "processHeaders_loop cfg ((key, v) # rest) hdrs =
     (let lowerKey = toLowerCase key
      in if lowerKey = ''host''
         then processHeaders_loop cfg rest (assign hdrs ''host'' (ORIGIN_SERVER cfg))
         else if lowerKey \<notin> set [''accept-encoding'', ''connection'', ''keep-alive'', ''content-length'']
         then processHeaders_loop cfg rest (assign hdrs key v)
         else processHeaders_loop cfg rest hdrs)"

definition processHeaders :: "config \<Rightarrow> headers \<Rightarrow> headers" where
  "processHeaders cfg originalHeaders =
     Headers_of_object (processHeaders_loop cfg (Headers_entries originalHeaders) [])"

text \<open>
  The logger is registered before every route. It parses \<^verbatim>\<open>c.req.url\<close> before it calls
  \<^verbatim>\<open>next()\<close> and outside any \<^verbatim>\<open>try\<close>: a request whose URL the constructor rejects raises
  there and never reaches a handler. \<open>next\<close> is the outcome of what runs downstream.
\<close>

definition loggerMiddleware :: "(string \<Rightarrow> url option) \<Rightarrow> request \<Rightarrow> js_error + 'a \<Rightarrow> js_error + 'a" where
  "loggerMiddleware URL c next =
     (case URL (req_url c) of
        None \<Rightarrow> Inl TypeError
      | Some u \<Rightarrow> next)"

text \<open>
  \<open>fixRedirectUrl\<close>. The result is \<open>Inr None\<close> for \<^verbatim>\<open>null\<close>. The request URL is parsed before
  the \<^verbatim>\<open>try\<close>; inside it, only a location that is an array raises (it has no
  \<^verbatim>\<open>startsWith\<close>), and that is caught.
\<close>

definition fixRedirectUrl ::
  "(string \<Rightarrow> url option) \<Rightarrow> config \<Rightarrow> header_value \<Rightarrow> request \<Rightarrow> js_error + string option" where
  "fixRedirectUrl URL cfg location c =
     (if \<not> truthy_value location then Inr None
      else
        (case URL (req_url c) of
           None \<Rightarrow> Inl TypeError
         | Some u \<Rightarrow>
             (let protocol = replace (url_protocol u) '':'' [];
                  host = url_host u
              in case location of
                   Str loc \<Rightarrow>
                     (if startsWith loc ''http://'' \<or> startsWith loc ''https://'' then
                        (if includes_str loc (ORIGIN_SERVER cfg)
                         then Inr (Some (replace loc (PROTOCOL cfg @ ''://'' @ ORIGIN_SERVER cfg)
                                           (protocol @ ''://'' @ host)))
                         else Inr (Some loc))
                      else
                        (let path = (if startsWith loc ''/'' then loc else ''/'' @ loc)
                         in Inr (Some (protocol @ ''://'' @ host @ path))))
                 | _ \<Rightarrow> Inr None)))"

section \<open>Sample requests and responses\<close>

text \<open>Concrete values on which the theorems below are instantiated: a GET request to
  the mirror, a small image response of the origin, and a store that holds it.\<close>

definition get_request :: "string \<Rightarrow> string \<Rightarrow> string \<Rightarrow> request" where
  "get_request host path search =
     \<lparr>req_method = ''GET'', req_scheme = ''http'', req_host = host, req_path = path,
      req_search = search, req_query = [], req_headers = [(''host'', host)]\<rparr>"

definition wrong_token_request :: "string \<Rightarrow> request" where
  "wrong_token_request path =
     (get_request ''mirror.local'' path ''?token=wrong'')\<lparr>req_query := [(''token'', ''wrong'')]\<rparr>"

definition versioned_request :: "string \<Rightarrow> request" where
  "versioned_request host =
     (get_request host ''/logo.png'' ''?v=1'')\<lparr>req_query := [(''v'', ''1'')]\<rparr>"

definition png_response :: response where
  "png_response =
     \<lparr>res_status = 200, res_statusText = ''OK'',
      res_headers = [(''content-type'', ''image/png''), (''etag'', ''abc'')],
      res_body = Stream [137, 80, 78, 71]\<rparr>"

definition png_state :: app_state where
  "png_state =
     \<lparr>cache = Some [(''cache:http://mirror.local/logo.png'',
                      captured_entry png_response [137, 80, 78, 71] ''image/png'' 1)],
      cache_ops = []\<rparr>"

definition force_config :: config where
  "force_config = default_config\<lparr>CACHE_STRATEGY := ''force''\<rparr>"

text \<open>A page of the origin that sets two cookies, and the header of a reply.\<close>

definition cookie_response :: response where
  "cookie_response =
     \<lparr>res_status = 200, res_statusText = ''OK'',
      res_headers = [(''content-type'', ''text/html''), (''set-cookie'', ''a=1''),
                     (''set-cookie'', ''b=2'')],
      res_body = Stream [60, 112, 62]\<rparr>"

fun reply_header :: "string \<Rightarrow> reply \<Rightarrow> string option" where
  "reply_header name (Res r) = Headers_get (res_headers r) name"
| "reply_header name (c_json v st) = None"
| "reply_header name (c_text t st) = None"

definition off_config :: config where
  "off_config = default_config\<lparr>CACHE_STRATEGY := ''off''\<rparr>"

text \<open>The URL constructor on the sample requests: for a URL of the mirror at
  \<open>http://mirror.local\<close> it gives the protocol \<open>http:\<close> and the host \<open>mirror.local\<close>, as
  the platform does. No other URL is passed to it below.\<close>

definition sample_URL :: "string \<Rightarrow> url option" where
  "sample_URL s =
     (if startsWith s ''http://mirror.local/''
      then Some \<lparr>url_protocol = ''http:'', url_host = ''mirror.local''\<rparr> else None)"

section \<open>Properties of the string functions\<close>

lemma split_not_Nil: "split c s \<noteq> []"
  by (induction s) (auto simp: Let_def)

lemma split_no_sep: "c \<notin> set s \<Longrightarrow> split c s = [s]"
  by (induction s) (auto simp: Let_def)

lemma split_sep_tl: "c \<in> set s \<Longrightarrow> tl (split c s) \<noteq> []"
  using split_not_Nil [of c]
  by (induction s) (auto simp: Let_def split_no_sep)

lemma last_split: "last (split c s) = rev (takeWhile (\<lambda>x. x \<noteq> c) (rev s))"
proof (induction s)
  case Nil
  show ?case by simp
next
  case (Cons x xs)
  show ?case
  proof (cases "c \<in> set xs")
    case False
    then show ?thesis
      by (simp add: split_no_sep takeWhile_append)
  next
    case True
    then obtain w v vs where r: "split c xs = w # v # vs"
      using split_sep_tl [of c xs] split_not_Nil [of c xs]
      by (cases "split c xs"; cases "tl (split c xs)") auto
    with Cons.IH True show ?thesis
      by (auto simp: Let_def takeWhile_append)
  qed
qed

section \<open>The resource classifier\<close>

lemma no_dot_request_path:
  assumes "startsWith p ''/''" and "CHR ''.'' \<notin> set p"
  shows "\<not> isStaticResource (Some p) None"
proof -
  from assms(1) obtain r where p: "p = CHR ''/'' # r"
    by (auto simp: startsWith_def prefix_def)
  have "hd (toLowerCase p) = CHR ''/''"
    by (simp add: p toLowerCase_def toLowerCase_char_def)
  moreover have "\<forall>e \<in> set STATIC_EXTENSIONS. hd e \<noteq> CHR ''/''"
    by (simp add: STATIC_EXTENSIONS_def)
  ultimately have "toLowerCase p \<notin> set STATIC_EXTENSIONS"
    by auto
  with assms(2) show ?thesis
    by (simp add: isStaticResource_def split_no_sep)
qed

text \<open>
  Claim C8. With no content type, a path is classified as static exactly when its
  extension, lower-cased, is one of \<open>STATIC_EXTENSIONS\<close>. The extension is the substring
  after the last \<open>.\<close> of the path; \<^verbatim>\<open>path.split('.').pop()\<close> yields the whole path when
  there is no \<open>.\<close>, and \<open>file_extension\<close> follows it there. (A request path begins with
  \<open>/\<close>, so one without \<open>.\<close> is never static: \<open>no_dot_request_path\<close>.) The empty path
  is falsy and skips the test, and the empty extension is not in the list.
\<close>

theorem isStaticResource_extension:
  "isStaticResource (Some p) None \<longleftrightarrow> toLowerCase (file_extension p) \<in> set STATIC_EXTENSIONS"
proof (cases "p = []")
  case True
  then show ?thesis
    by (simp add: isStaticResource_def file_extension_def toLowerCase_def STATIC_EXTENSIONS_def)
next
  case False
  then show ?thesis
    by (simp add: isStaticResource_def file_extension_def last_split)
qed

section \<open>The cache policy\<close>

text \<open>
  Claim C1. Under each of the three strategies \<open>off\<close>, \<open>force\<close> and \<open>auto\<close>,
  \<open>shouldCacheResponse\<close> returns what the decision table of the specification gives,
  read in order: \<open>off\<close> is false; static-only with a resource that is not static is false;
  \<open>force\<close> is true whatever the cache-control; \<open>auto\<close> is true when the cache-control is
  absent, false when its directive set holds \<open>no-store\<close> or \<open>no-cache\<close>, false when it
  holds \<open>private\<close> and static-only is off, and true otherwise.
\<close>

theorem shouldCacheResponse_decision_table:
  assumes "CACHE_STRATEGY cfg = strategy_name s"
  shows "shouldCacheResponse cfg path contentType cacheControl =
         shouldCache_table s (CACHE_STATIC_ONLY cfg) (isStaticResource path contentType)
           (directive_set cacheControl)"
  using assms
  by (cases s) (auto simp: shouldCacheResponse_def shouldCache_table_def directive_set_def)

lemma table_private_example:
  "shouldCache_table Auto False (isStaticResource (Some ''/me'') (Some ''text/html''))
     (directive_set (Some ''Private, max-age=0'')) = False"
  by code_simp

theorem shouldCacheResponse_decision_table_witness:
  "CACHE_STRATEGY default_config = strategy_name Auto \<and>
   shouldCacheResponse default_config (Some ''/me'') (Some ''text/html'')
     (Some ''Private, max-age=0'') = False"
proof -
  have h: "CACHE_STRATEGY default_config = strategy_name Auto"
    by (simp add: default_config_def)
  show ?thesis
    using h shouldCacheResponse_decision_table [OF h, of "Some ''/me''" "Some ''text/html''"
        "Some ''Private, max-age=0''"]
    by (simp add: table_private_example default_config_def)
qed

text \<open>
  Claim C10. Under a strategy string that is none of \<open>off\<close>, \<open>force\<close> and \<open>auto\<close>,
  \<open>shouldCacheResponse\<close> is false for every path, content type and cache-control.
\<close>

theorem shouldCacheResponse_unknown_strategy:
  assumes "CACHE_STRATEGY cfg \<notin> {''off'', ''force'', ''auto''}"
  shows "shouldCacheResponse cfg path contentType cacheControl = False"
  using assms by (simp add: shouldCacheResponse_def)

theorem shouldCacheResponse_unknown_strategy_witness:
  "CACHE_STRATEGY (default_config\<lparr>CACHE_STRATEGY := ''Auto''\<rparr>) \<notin> {''off'', ''force'', ''auto''} \<and>
   shouldCacheResponse (default_config\<lparr>CACHE_STRATEGY := ''Auto''\<rparr>)
     (Some ''/logo.png'') (Some ''image/png'') None = False"
proof -
  have h: "CACHE_STRATEGY (default_config\<lparr>CACHE_STRATEGY := ''Auto''\<rparr>) \<notin> {''off'', ''force'', ''auto''}"
    by simp
  show ?thesis
    using h shouldCacheResponse_unknown_strategy [OF h] by simp
qed

section \<open>The strategy \<open>off\<close>\<close>

lemma dispatch_off:
  assumes "CACHE_STRATEGY cfg = ''off''"
  shows "snd (dispatch cfg now proxy st c) = st"
  using assms
  by (simp add: dispatch_def get_cache_info_def get_cache_clear_def get_cache_stats_def
      staticCacheMiddleware_def)

lemma serve_off:
  assumes "CACHE_STRATEGY cfg = ''off''"
  shows "snd (serve cfg st reqs) = st"
proof (induction reqs arbitrary: st)
  case Nil
  show ?case by simp
next
  case (Cons a reqs)
  obtain now proxy c where a: "a = (now, proxy, c)"
    by (cases a) auto
  obtain r st' where d: "dispatch cfg now proxy st c = (r, st')"
    by (cases "dispatch cfg now proxy st c") auto
  from dispatch_off [OF assms, of now proxy st c] d have "st' = st"
    by simp
  with Cons.IH [of st] a d show ?case
    by (simp add: split_def)
qed

text \<open>
  Claim C3. Under the strategy \<open>off\<close> the process starts without a store, and whatever
  requests it serves, in whatever order, the state after them is the state it started
  in: there is still no store, and no call on a store was made, so no entry was created
  or read. A GET request to \<open>/cache/info\<close>, \<open>/cache/clear\<close> or \<open>/cache/stats\<close> is answered
  with status 403 and the JSON object whose \<open>error\<close> is \<open>Cache is disabled\<close>, in any state.
\<close>

theorem strategy_off_cache_untouched:
  assumes "CACHE_STRATEGY cfg = ''off''"
  shows "cache (init_state cfg) = None \<and>
         snd (serve cfg (init_state cfg) reqs) = init_state cfg \<and>
         cache_ops (snd (serve cfg (init_state cfg) reqs)) = [] \<and>
         (req_method c = ''GET'' \<and> req_path c \<in> {''/cache/info'', ''/cache/clear'', ''/cache/stats''}
            \<longrightarrow> dispatch cfg now proxy st c =
                  (c_json (JObject [(''error'', JString ''Cache is disabled'')]) 403, st))"
  using assms serve_off [OF assms, of "init_state cfg" reqs]
  by (auto simp: init_state_def dispatch_def get_cache_info_def get_cache_clear_def
      get_cache_stats_def cache_disabled_def)

theorem strategy_off_cache_untouched_witness:
  "CACHE_STRATEGY off_config = ''off'' \<and>
   snd (serve off_config (init_state off_config)
          [(0, \<lambda>c. png_response, get_request ''mirror.local'' ''/logo.png'' []),
           (1, \<lambda>c. png_response, get_request ''mirror.local'' ''/logo.png'' [])])
     = \<lparr>cache = None, cache_ops = []\<rparr> \<and>
   fst (dispatch off_config 2 (\<lambda>c. png_response) \<lparr>cache = None, cache_ops = []\<rparr>
          (get_request ''mirror.local'' ''/cache/stats'' []))
     = c_json (JObject [(''error'', JString ''Cache is disabled'')]) 403"
proof -
  have h: "CACHE_STRATEGY off_config = ''off''"
    by (simp add: off_config_def)
  have i: "init_state off_config = \<lparr>cache = None, cache_ops = []\<rparr>"
    by (simp add: init_state_def off_config_def)
  show ?thesis
    using h strategy_off_cache_untouched [OF h,
        of "[(0, \<lambda>c. png_response, get_request ''mirror.local'' ''/logo.png'' []),
             (1, \<lambda>c. png_response, get_request ''mirror.local'' ''/logo.png'' [])]"
           "get_request ''mirror.local'' ''/cache/stats'' []"
           2 "\<lambda>c. png_response" "\<lparr>cache = None, cache_ops = []\<rparr>"]
    by (simp add: i get_request_def)
qed

section \<open>The cache management endpoints\<close>

text \<open>
  Claim C4 says that \<open>/cache/clear\<close> answers 401 to a request whose token is wrong and
  leaves the store alone. The handler never reads the token: with caching enabled, every
  GET request to \<open>/cache/clear\<close>, whatever its \<open>token\<close> parameter, empties the store and
  is answered with status 200 and \<open>success: true\<close>. The instance below sends the token
  \<open>wrong\<close> against the configured \<open>123456\<close>; \<open>/cache/info\<close> answers the same request
  with 401.
\<close>

theorem cache_clear_without_token_check:
  assumes "CACHE_STRATEGY cfg \<noteq> ''off''" and "cache st = Some s"
    and "req_method c = ''GET''" and "req_path c = ''/cache/clear''"
  shows "dispatch cfg now proxy st c =
         (c_json (JObject [(''message'', JString ''Cache cleared successfully''),
                           (''success'', JBool True)]) 200,
          st\<lparr>cache := Some [], cache_ops := cache_ops st @ [OpClear]\<rparr>)"
  using assms
  by (simp add: dispatch_def get_cache_clear_def cache_clear_def)

theorem cache_clear_without_token_check_witness:
  "CACHE_STRATEGY default_config \<noteq> ''off'' \<and>
   query (wrong_token_request ''/cache/clear'') ''token'' \<noteq> Some (CACHE_CLEAR_TOKEN default_config) \<and>
   dispatch default_config 5 (\<lambda>c. png_response) png_state (wrong_token_request ''/cache/clear'')
     = (c_json (JObject [(''message'', JString ''Cache cleared successfully''),
                         (''success'', JBool True)]) 200,
        \<lparr>cache = Some [], cache_ops = [OpClear]\<rparr>) \<and>
   fst (get_cache_info default_config png_state (wrong_token_request ''/cache/info''))
     = c_text ''Unauthorized'' 401"
proof -
  have h: "CACHE_STRATEGY default_config \<noteq> ''off''"
    by (simp add: default_config_def)
  have s: "cache png_state = Some [(''cache:http://mirror.local/logo.png'',
                      captured_entry png_response [137, 80, 78, 71] ''image/png'' 1)]"
    by (simp add: png_state_def)
  show ?thesis
    using h cache_clear_without_token_check [OF h s,
        of "wrong_token_request ''/cache/clear''" 5 "\<lambda>c. png_response"]
    by (simp add: wrong_token_request_def get_request_def query_def get_cache_info_def
        default_config_def png_state_def)
qed

section \<open>The cache key\<close>

text \<open>
  Claim C9, amended. The cache key of a request is \<open>cache:\<close> followed by the whole
  request URL: scheme, host, path and query string. It is a function of that URL alone,
  and two requests have the same key exactly when they have the same URL; the host is
  part of it.
\<close>

theorem cacheKey_is_full_url:
  "cacheKey c = ''cache:'' @ req_scheme c @ ''://'' @ req_host c @ req_path c @ req_search c \<and>
   (cacheKey c = cacheKey c' \<longleftrightarrow> req_url c = req_url c')"
  by (simp add: cacheKey_def req_url_def)

text \<open>Two requests with the same path and the same query string, sent to the mirror
  under two host names, have different cache keys.\<close>

theorem cacheKey_depends_on_host:
  "req_path (versioned_request ''a.example'') = req_path (versioned_request ''b.example'') \<and>
   req_search (versioned_request ''a.example'') = req_search (versioned_request ''b.example'') \<and>
   req_query (versioned_request ''a.example'') = req_query (versioned_request ''b.example'') \<and>
   cacheKey (versioned_request ''a.example'') = ''cache:http://a.example/logo.png?v=1'' \<and>
   cacheKey (versioned_request ''b.example'') = ''cache:http://b.example/logo.png?v=1'' \<and>
   cacheKey (versioned_request ''a.example'') \<noteq> cacheKey (versioned_request ''b.example'')"
  by (simp add: versioned_request_def get_request_def cacheKey_def req_url_def)

section \<open>Header lists\<close>

lemma header_values_filter_other:
  "header_values (filter (\<lambda>(k, w). toLowerCase k \<noteq> n) h) m =
     (if m = n then [] else header_values h m)"
  by (induction h) (auto simp: header_values_def)

lemma header_values_set:
  "header_values (Headers_set h name v) m =
     (if m = toLowerCase name then [v] else header_values h m)"
proof (induction h)
  case Nil
  show ?case by (simp add: header_values_def)
next
  case (Cons a h)
  obtain k w where a: "a = (k, w)" by (cases a) auto
  show ?case
  proof (cases "toLowerCase k = toLowerCase name")
    case True
    have "header_values ((k, v) # filter (\<lambda>(k', w'). toLowerCase k' \<noteq> toLowerCase name) h) m =
          (if m = toLowerCase name then [v] else header_values h m)"
      using True header_values_filter_other [of "toLowerCase name" h m]
      by (auto simp: header_values_def)
    moreover have "header_values ((k, w) # h) m = header_values h m" if "m \<noteq> toLowerCase name"
      using that True by (simp add: header_values_def)
    ultimately show ?thesis
      using True a by simp
  next
    case False
    with Cons.IH a show ?thesis
      by (auto simp: header_values_def)
  qed
qed

lemma join_values_single [simp]: "join_values n [v] = v"
  by (simp add: join_values_def)

lemma Headers_get_set:
  "Headers_get (Headers_set h name v) m =
     (if toLowerCase m = toLowerCase name then Some v else Headers_get h m)"
  by (simp add: Headers_get_def header_values_set)

section \<open>Iterating header lists\<close>

lemma toLowerCase_char_idem: "toLowerCase_char (toLowerCase_char c) = toLowerCase_char c"
  by (auto simp: toLowerCase_char_def Let_def)

lemma toLowerCase_idem: "toLowerCase (toLowerCase s) = toLowerCase s"
  by (simp add: toLowerCase_def toLowerCase_char_idem)

lemma header_values_empty: "header_values h n = [] \<longleftrightarrow> n \<notin> (\<lambda>(k, v). toLowerCase k) ` set h"
  by (induction h) (auto simp: header_values_def)

lemma map_of_rev_concat:
  assumes "\<forall>m \<in> set ns. \<forall>(k, v) \<in> set (g m). k = m"
  shows "map_of (rev (concat (map g ns))) n = (if n \<in> set ns then map_of (rev (g n)) n else None)"
  using assms
proof (induction ns)
  case Nil
  show ?case by simp
next
  case (Cons a ns)
  have other: "map_of (rev (g a)) n = None" if "a \<noteq> n"
  proof -
    have "\<forall>(k, v) \<in> set (g a). k = a"
      using Cons.prems by simp
    with that have "n \<notin> fst ` set (rev (g a))"
      by force
    then show ?thesis
      by (simp add: map_of_eq_None_iff)
  qed
  from Cons have IH: "map_of (rev (concat (map g ns))) n =
      (if n \<in> set ns then map_of (rev (g n)) n else None)"
    by simp
  show ?case
    using IH other
    by (cases "a = n") (auto simp: map_add_def split: option.splits)
qed

lemma map_of_rev_singletons:
  "map_of (rev (map (Pair n) vs)) n = (if vs = [] then None else Some (last vs))"
  by (induction vs) (auto simp: map_add_def split: option.splits)

lemma lower_set_cookie: "toLowerCase ''set-cookie'' = ''set-cookie''"
  by code_simp

lemma Headers_entries_keys:
  "(k, v) \<in> set (Headers_entries h) \<Longrightarrow> toLowerCase k = k"
  by (auto simp: Headers_entries_def toLowerCase_idem lower_set_cookie split: if_splits)

lemma map_of_rev_Headers_entries:
  "map_of (rev (Headers_entries h)) n =
     (if header_values h n = [] then None
      else if n = ''set-cookie'' then Some (last (header_values h n))
      else Some (join_values n (header_values h n)))"
proof -
  let ?g = "\<lambda>n. if n = ''set-cookie'' then map (Pair n) (header_values h n)
                       else [(n, join_values n (header_values h n))]"
  let ?ns = "sort (remdups (map (\<lambda>(k, v). toLowerCase k) h))"
  have "\<forall>m \<in> set ?ns. \<forall>(k, v) \<in> set (?g m). k = m"
    by auto
  then have "map_of (rev (concat (map ?g ?ns))) n =
      (if n \<in> set ?ns then map_of (rev (?g n)) n else None)"
    by (rule map_of_rev_concat)
  moreover have "n \<in> set ?ns \<longleftrightarrow> header_values h n \<noteq> []"
    by (simp add: header_values_empty)
  ultimately show ?thesis
    by (simp add: Headers_entries_def map_of_rev_singletons)
qed

lemma Headers_get_lower: "Headers_get h (toLowerCase name) = Headers_get h name"
  by (simp add: Headers_get_def Let_def toLowerCase_idem)

lemma map_of_rev_entries_get:
  assumes "toLowerCase n = n" and "n \<noteq> ''set-cookie''"
  shows "map_of (rev (Headers_entries h)) n = Headers_get h n"
  using assms by (simp add: map_of_rev_Headers_entries Headers_get_def)

lemma values_distinct:
  "distinct (map fst al) \<Longrightarrow>
   map snd (filter (\<lambda>(k, v). k = n) al) = (case map_of al n of None \<Rightarrow> [] | Some v \<Rightarrow> [v])"
proof (induction al)
  case Nil
  show ?case by simp
next
  case (Cons a al)
  obtain k v where a: "a = (k, v)" by (cases a) auto
  show ?case
  proof (cases "k = n")
    case True
    with Cons.prems a have "n \<notin> fst ` set al" by auto
    then have "filter (\<lambda>(k, v). k = n) al = []"
      by (force simp: filter_empty_conv)
    with True a show ?thesis by simp
  next
    case False
    with Cons a show ?thesis by simp
  qed
qed

lemma Headers_get_object:
  assumes "distinct (map fst obj)" and "\<forall>(k, v) \<in> set obj. toLowerCase k = k"
  shows "Headers_get obj name = map_of obj (toLowerCase name)"
proof -
  have "filter (\<lambda>(k, v). toLowerCase k = toLowerCase name) obj =
        filter (\<lambda>(k, v). k = toLowerCase name) obj"
    using assms(2) by (intro filter_cong) auto
  then have "header_values obj (toLowerCase name) =
      (case map_of obj (toLowerCase name) of None \<Rightarrow> [] | Some v \<Rightarrow> [v])"
    using values_distinct [OF assms(1)] by (simp add: header_values_def)
  then show ?thesis
    by (simp add: Headers_get_def split: option.splits)
qed

lemma map_of_foldl_update:
  "map_of (foldl (\<lambda>obj (k, v). AList.update k v obj) obj es) n =
     (case map_of (rev es) n of None \<Rightarrow> map_of obj n | Some v \<Rightarrow> Some v)"
proof (induction es arbitrary: obj)
  case Nil
  show ?case by simp
next
  case (Cons a es)
  obtain k v where a: "a = (k, v)" by (cases a) auto
  show ?case
    unfolding a
    by (simp add: Cons.IH update_conv' map_add_def split: option.splits)
qed

lemma foldl_update_distinct:
  "distinct (map fst obj) \<Longrightarrow>
   distinct (map fst (foldl (\<lambda>obj (k, v). AList.update k v obj) obj es))"
proof (induction es arbitrary: obj)
  case Nil
  then show ?case by simp
next
  case (Cons a es)
  obtain k v where a: "a = (k, v)" by (cases a) auto
  from Cons.prems have "distinct (map fst (AList.update k v obj))"
    by (rule distinct_update)
  then show ?case
    unfolding a by (simp add: Cons.IH)
qed

lemma foldl_update_keys:
  "fst ` set (foldl (\<lambda>obj (k, v). AList.update k v obj) obj es) \<subseteq> fst ` set obj \<union> fst ` set es"
proof (induction es arbitrary: obj)
  case Nil
  show ?case by simp
next
  case (Cons a es)
  obtain k v where a: "a = (k, v)" by (cases a) auto
  have "fst ` set (foldl (\<lambda>obj (k, v). AList.update k v obj) (AList.update k v obj) es)
        \<subseteq> fst ` set (AList.update k v obj) \<union> fst ` set es"
    by (rule Cons.IH)
  then show ?case
    unfolding a by (auto simp: dom_update)
qed

lemma snapshot_get:
  assumes "toLowerCase name \<noteq> ''set-cookie''"
  shows "Headers_get (Headers_of_object (Object_fromEntries (Headers_entries h))) name =
         Headers_get h name"
proof -
  let ?es = "Headers_entries h"
  let ?obj = "Object_fromEntries ?es"
  have d: "distinct (map fst ?obj)"
    unfolding Object_fromEntries_def by (rule foldl_update_distinct) simp
  have sub: "fst ` set ?obj \<subseteq> fst ` set ?es"
    unfolding Object_fromEntries_def using foldl_update_keys [of "[]" ?es] by simp
  have l: "\<forall>(k, v) \<in> set ?obj. toLowerCase k = k"
  proof (clarify)
    fix k v
    assume "(k, v) \<in> set ?obj"
    then have "k \<in> fst ` set ?obj"
      by force
    with sub obtain w where "(k, w) \<in> set ?es"
      by auto
    then show "toLowerCase k = k"
      by (rule Headers_entries_keys)
  qed
  have m: "map_of ?obj (toLowerCase name) = map_of (rev ?es) (toLowerCase name)"
    unfolding Object_fromEntries_def map_of_foldl_update
    by (cases "map_of (rev ?es) (toLowerCase name)") simp_all
  have "Headers_get ?obj name = map_of ?obj (toLowerCase name)"
    using d l by (rule Headers_get_object)
  also note m
  also have "map_of (rev ?es) (toLowerCase name) = Headers_get h (toLowerCase name)"
    using assms by (intro map_of_rev_entries_get) (simp_all add: toLowerCase_idem)
  also have "\<dots> = Headers_get h name"
    by (rule Headers_get_lower)
  finally show ?thesis
    by (simp add: Headers_of_object_def)
qed

section \<open>The round trip through the store\<close>

lemma miss_stores:
  assumes strat: "CACHE_STRATEGY cfg \<noteq> ''off''"
    and req: "req_method c = ''GET''" "\<not> startsWith (req_path c) ''/cache/''"
    and st: "cache st = Some s" "map_of s (cacheKey c) = None"
    and res: "res_status res = 200" "arrayBuffer (res_body res) = Inr bytes"
    and policy: "shouldCacheResponse cfg (Some (req_path c))
                   (Some (or_empty (Headers_get (res_headers res) ''content-type'')))
                   (Some (or_empty (Headers_get (res_headers res) ''cache-control'')))"
  shows "\<exists>res1. staticCacheMiddleware cfg now st c res =
           Inr (res1, st\<lparr>cache := Some (AList.update (cacheKey c)
                   (captured_entry res bytes (or_empty (Headers_get (res_headers res) ''content-type'')) now) s),
                 cache_ops := cache_ops st @ [OpGet (cacheKey c), OpSet (cacheKey c)]\<rparr>)"
  using assms
  by (simp add: staticCacheMiddleware_def cache_get_def store_response_def cache_set_def
      new_Response_def Let_def)

lemma hit_serves:
  assumes strat: "CACHE_STRATEGY cfg \<noteq> ''off''"
    and req: "req_method c = ''GET''" "\<not> startsWith (req_path c) ''/cache/''"
    and st: "cache st = Some s" "map_of s (cacheKey c) = Some e"
    and ok: "200 \<le> entry_status e" "entry_status e \<le> 599" "entry_status e \<notin> {204, 205, 304}"
  shows "staticCacheMiddleware cfg now st c next =
           Inr (\<lparr>res_status = entry_status e, res_statusText = entry_statusText e,
                 res_headers =
                   Headers_set (Headers_set (Headers_set (Headers_of_object (entry_headers e))
                     ''X-Cache'' ''HIT'') ''X-Cache-Key'' (cacheKey c))
                     ''X-Cache-Strategy'' (CACHE_STRATEGY cfg),
                 res_body = Stream (entry_body e)\<rparr>,
                st\<lparr>cache_ops := cache_ops st @ [OpGet (cacheKey c)]\<rparr>)"
  using assms
  by (simp add: staticCacheMiddleware_def cache_get_def hit_response_def new_Response_def Let_def)

lemma lower_diag:
  "toLowerCase ''X-Cache'' = ''x-cache''"
  "toLowerCase ''X-Cache-Key'' = ''x-cache-key''"
  "toLowerCase ''X-Cache-Strategy'' = ''x-cache-strategy''"
  by code_simp+

text \<open>
  What the round trip keeps. Let a GET request outside \<open>/cache/\<close> miss the store, and let
  the response that comes back have status 200, pass the cache policy and have a readable
  body. Then the middleware stores the entry \<open>e\<close> captured from that response under the
  key of the request. Whenever a later GET request with the same URL finds \<open>e\<close> in the
  store, the middleware answers with the status, the status text and the body bytes of
  the stored response, and with the headers of \<open>e\<close> on which \<open>X-Cache\<close>, \<open>X-Cache-Key\<close> and
  \<open>X-Cache-Strategy\<close> are set. The headers of \<open>e\<close> read as those of the response for
  every name but \<open>set-cookie\<close>.
\<close>

lemma round_trip:
  assumes strat: "CACHE_STRATEGY cfg \<noteq> ''off''"
    and req: "req_method c = ''GET''" "\<not> startsWith (req_path c) ''/cache/''"
    and st: "cache st = Some s" "map_of s (cacheKey c) = None"
    and res: "res_status res = 200" "arrayBuffer (res_body res) = Inr bytes"
    and policy: "shouldCacheResponse cfg (Some (req_path c))
                   (Some (or_empty (Headers_get (res_headers res) ''content-type'')))
                   (Some (or_empty (Headers_get (res_headers res) ''cache-control'')))"
    and e: "e = captured_entry res bytes (or_empty (Headers_get (res_headers res) ''content-type'')) now"
  shows "(\<exists>res1. staticCacheMiddleware cfg now st c res =
            Inr (res1, st\<lparr>cache := Some (AList.update (cacheKey c) e s),
                          cache_ops := cache_ops st @ [OpGet (cacheKey c), OpSet (cacheKey c)]\<rparr>)) \<and>
         entry_headers e = Object_fromEntries (Headers_entries (res_headers res)) \<and>
         (\<forall>n. toLowerCase n \<noteq> ''set-cookie'' \<longrightarrow>
              Headers_get (Headers_of_object (entry_headers e)) n = Headers_get (res_headers res) n) \<and>
         (\<forall>st2 s2 c2 now2 next2.
            cache st2 = Some s2 \<and> map_of s2 (cacheKey c) = Some e \<and>
            req_method c2 = ''GET'' \<and> req_url c2 = req_url c \<and> req_path c2 = req_path c \<longrightarrow>
            (\<exists>hit st3.
               staticCacheMiddleware cfg now2 st2 c2 next2 = Inr (hit, st3) \<and>
               res_status hit = res_status res \<and>
               res_statusText hit = res_statusText res \<and>
               arrayBuffer (res_body hit) = arrayBuffer (res_body res) \<and>
               res_headers hit =
                 Headers_set (Headers_set (Headers_set (Headers_of_object (entry_headers e))
                   ''X-Cache'' ''HIT'') ''X-Cache-Key'' (cacheKey c))
                   ''X-Cache-Strategy'' (CACHE_STRATEGY cfg) \<and>
               Headers_get (res_headers hit) ''X-Cache'' = Some ''HIT'' \<and>
               Headers_get (res_headers hit) ''X-Cache-Key'' = Some (cacheKey c) \<and>
               Headers_get (res_headers hit) ''X-Cache-Strategy'' = Some (CACHE_STRATEGY cfg) \<and>
               (\<forall>n. toLowerCase n \<notin> {''x-cache'', ''x-cache-key'', ''x-cache-strategy''} \<longrightarrow>
                    Headers_get (res_headers hit) n =
                    Headers_get (Headers_of_object (entry_headers e)) n)))"
proof (intro conjI allI impI)
  show "\<exists>res1. staticCacheMiddleware cfg now st c res =
            Inr (res1, st\<lparr>cache := Some (AList.update (cacheKey c) e s),
                          cache_ops := cache_ops st @ [OpGet (cacheKey c), OpSet (cacheKey c)]\<rparr>)"
    unfolding e by (rule miss_stores [OF strat req st res policy])
next
  show "entry_headers e = Object_fromEntries (Headers_entries (res_headers res))"
    by (simp add: e captured_entry_def)
next
  fix n
  assume "toLowerCase n \<noteq> ''set-cookie''"
  then show "Headers_get (Headers_of_object (entry_headers e)) n = Headers_get (res_headers res) n"
    by (simp add: e captured_entry_def snapshot_get)
next
  fix st2 :: app_state and s2 :: store and c2 :: request and now2 :: nat and next2 :: response
  assume a: "cache st2 = Some s2 \<and> map_of s2 (cacheKey c) = Some e \<and>
            req_method c2 = ''GET'' \<and> req_url c2 = req_url c \<and> req_path c2 = req_path c"
  have key: "cacheKey c2 = cacheKey c"
    using a by (simp add: cacheKey_def)
  have es: "entry_status e = 200" "entry_statusText e = res_statusText res" "entry_body e = bytes"
    using res by (simp_all add: e captured_entry_def)
  let ?hit = "\<lparr>res_status = entry_status e, res_statusText = entry_statusText e,
                 res_headers =
                   Headers_set (Headers_set (Headers_set (Headers_of_object (entry_headers e))
                     ''X-Cache'' ''HIT'') ''X-Cache-Key'' (cacheKey c2))
                     ''X-Cache-Strategy'' (CACHE_STRATEGY cfg),
                 res_body = Stream (entry_body e)\<rparr>"
  have run: "staticCacheMiddleware cfg now2 st2 c2 next2 =
          Inr (?hit, st2\<lparr>cache_ops := cache_ops st2 @ [OpGet (cacheKey c2)]\<rparr>)"
  proof -
    have "req_method c2 = ''GET''" "\<not> startsWith (req_path c2) ''/cache/''"
      "cache st2 = Some s2" "map_of s2 (cacheKey c2) = Some e"
      using a req key by simp_all
    moreover have "200 \<le> entry_status e" "entry_status e \<le> 599"
      "entry_status e \<notin> {204, 205, 304}"
      using es by simp_all
    ultimately show ?thesis
      by (rule hit_serves [OF strat])
  qed
  have diag: "Headers_get (res_headers ?hit) ''X-Cache'' = Some ''HIT''"
    "Headers_get (res_headers ?hit) ''X-Cache-Key'' = Some (cacheKey c)"
    "Headers_get (res_headers ?hit) ''X-Cache-Strategy'' = Some (CACHE_STRATEGY cfg)"
    by (simp_all add: Headers_get_set lower_diag key)
  have rest: "Headers_get (res_headers ?hit) n = Headers_get (Headers_of_object (entry_headers e)) n"
    if "toLowerCase n \<notin> {''x-cache'', ''x-cache-key'', ''x-cache-strategy''}" for n
    using that by (simp add: Headers_get_set lower_diag)
  show "\<exists>hit st3.
               staticCacheMiddleware cfg now2 st2 c2 next2 = Inr (hit, st3) \<and>
               res_status hit = res_status res \<and>
               res_statusText hit = res_statusText res \<and>
               arrayBuffer (res_body hit) = arrayBuffer (res_body res) \<and>
               res_headers hit =
                 Headers_set (Headers_set (Headers_set (Headers_of_object (entry_headers e))
                   ''X-Cache'' ''HIT'') ''X-Cache-Key'' (cacheKey c))
                   ''X-Cache-Strategy'' (CACHE_STRATEGY cfg) \<and>
               Headers_get (res_headers hit) ''X-Cache'' = Some ''HIT'' \<and>
               Headers_get (res_headers hit) ''X-Cache-Key'' = Some (cacheKey c) \<and>
               Headers_get (res_headers hit) ''X-Cache-Strategy'' = Some (CACHE_STRATEGY cfg) \<and>
               (\<forall>n. toLowerCase n \<notin> {''x-cache'', ''x-cache-key'', ''x-cache-strategy''} \<longrightarrow>
                    Headers_get (res_headers hit) n =
                    Headers_get (Headers_of_object (entry_headers e)) n)"
    apply (rule exI [of _ ?hit])
    apply (rule exI [of _ "st2\<lparr>cache_ops := cache_ops st2 @ [OpGet (cacheKey c2)]\<rparr>"])
    using run diag rest es res key by simp
qed

lemma cookie_facts:
  "Headers_get (res_headers cookie_response) ''set-cookie'' = Some ''a=1, b=2''"
  "or_empty (Headers_get (res_headers cookie_response) ''content-type'') = ''text/html''"
  "shouldCacheResponse force_config (Some ''/login'') (Some ''text/html'')
     (Some (or_empty (Headers_get (res_headers cookie_response) ''cache-control'')))"
  "Headers_get (Headers_of_object (entry_headers
     (captured_entry cookie_response [60, 112, 62] ''text/html'' 1))) ''set-cookie'' = Some ''b=2''"
  "toLowerCase ''set-cookie'' \<notin> {''x-cache'', ''x-cache-key'', ''x-cache-strategy''}"
  by code_simp+

text \<open>
  Claim C2 says that a hit gives back the stored response with nothing but the diagnostic
  headers changed. Status, status text and body do come back (\<open>round_trip\<close>), but the
  headers are captured with \<^verbatim>\<open>Object.fromEntries\<close>, which keeps one value for each name. A
  page that sets two cookies is stored under the strategy \<open>force\<close>; the response it came
  back with reads \<open>set-cookie\<close> as \<open>a=1, b=2\<close>, and the hit served to the next request for the
  same URL reads it as \<open>b=2\<close>: the first cookie is lost.
\<close>

theorem hit_loses_set_cookie:
  "Headers_get (res_headers cookie_response) ''set-cookie'' = Some ''a=1, b=2'' \<and>
   (\<exists>res1 st1 hit st2.
      staticCacheMiddleware force_config 1 (init_state force_config)
        (get_request ''mirror.local'' ''/login'' []) cookie_response = Inr (res1, st1) \<and>
      staticCacheMiddleware force_config 2 st1
        (get_request ''mirror.local'' ''/login'' []) cookie_response = Inr (hit, st2) \<and>
      res_status hit = 200 \<and>
      arrayBuffer (res_body hit) = Inr [60, 112, 62] \<and>
      Headers_get (res_headers hit) ''X-Cache'' = Some ''HIT'' \<and>
      Headers_get (res_headers hit) ''set-cookie'' = Some ''b=2'')"
proof -
  let ?c = "get_request ''mirror.local'' ''/login'' []"
  let ?e = "captured_entry cookie_response [60, 112, 62] ''text/html'' 1"
  let ?st = "init_state force_config"
  let ?st1 = "?st\<lparr>cache := Some (AList.update (cacheKey ?c) ?e []),
                   cache_ops := cache_ops ?st @ [OpGet (cacheKey ?c), OpSet (cacheKey ?c)]\<rparr>"
  have h1: "CACHE_STRATEGY force_config \<noteq> ''off''"
    by (simp add: force_config_def)
  have h2: "req_method ?c = ''GET''" and h3: "\<not> startsWith (req_path ?c) ''/cache/''"
    by (simp_all add: get_request_def startsWith_def)
  have h4: "cache ?st = Some []"
    and h5: "map_of [] (cacheKey ?c) = (None :: cache_entry option)"
    by (simp_all add: init_state_def force_config_def default_config_def)
  have h6: "res_status cookie_response = 200"
    and h7: "arrayBuffer (res_body cookie_response) = Inr [60, 112, 62]"
    by (simp_all add: cookie_response_def)
  have h8: "shouldCacheResponse force_config (Some (req_path ?c))
              (Some (or_empty (Headers_get (res_headers cookie_response) ''content-type'')))
              (Some (or_empty (Headers_get (res_headers cookie_response) ''cache-control'')))"
    using cookie_facts(3) by (simp add: cookie_facts(2) get_request_def)
  have h9: "?e = captured_entry cookie_response [60, 112, 62]
              (or_empty (Headers_get (res_headers cookie_response) ''content-type'')) 1"
    by (simp add: cookie_facts(2))
  note rt = round_trip [OF h1 h2 h3 h4 h5 h6 h7 h8 h9]
  from rt obtain res1 where
    first: "staticCacheMiddleware force_config 1 ?st ?c cookie_response = Inr (res1, ?st1)"
    by blast
  have pre: "cache ?st1 = Some [(cacheKey ?c, ?e)]"
    "map_of [(cacheKey ?c, ?e)] (cacheKey ?c) = Some ?e"
    by simp_all
  from rt have "cache ?st1 = Some [(cacheKey ?c, ?e)] \<and>
      map_of [(cacheKey ?c, ?e)] (cacheKey ?c) = Some ?e \<and>
      req_method ?c = ''GET'' \<and> req_url ?c = req_url ?c \<and> req_path ?c = req_path ?c \<longrightarrow>
      (\<exists>hit st3.
         staticCacheMiddleware force_config 2 ?st1 ?c cookie_response = Inr (hit, st3) \<and>
         res_status hit = res_status cookie_response \<and>
         res_statusText hit = res_statusText cookie_response \<and>
         arrayBuffer (res_body hit) = arrayBuffer (res_body cookie_response) \<and>
         res_headers hit =
           Headers_set (Headers_set (Headers_set (Headers_of_object (entry_headers ?e))
             ''X-Cache'' ''HIT'') ''X-Cache-Key'' (cacheKey ?c))
             ''X-Cache-Strategy'' (CACHE_STRATEGY force_config) \<and>
         Headers_get (res_headers hit) ''X-Cache'' = Some ''HIT'' \<and>
         Headers_get (res_headers hit) ''X-Cache-Key'' = Some (cacheKey ?c) \<and>
         Headers_get (res_headers hit) ''X-Cache-Strategy'' = Some (CACHE_STRATEGY force_config) \<and>
         (\<forall>n. toLowerCase n \<notin> {''x-cache'', ''x-cache-key'', ''x-cache-strategy''} \<longrightarrow>
              Headers_get (res_headers hit) n =
              Headers_get (Headers_of_object (entry_headers ?e)) n))"
    by blast
  with pre h2 obtain hit st3 where
    run: "staticCacheMiddleware force_config 2 ?st1 ?c cookie_response = Inr (hit, st3)"
    and s: "res_status hit = res_status cookie_response"
      "arrayBuffer (res_body hit) = arrayBuffer (res_body cookie_response)"
      "Headers_get (res_headers hit) ''X-Cache'' = Some ''HIT''"
    and rest: "\<forall>n. toLowerCase n \<notin> {''x-cache'', ''x-cache-key'', ''x-cache-strategy''} \<longrightarrow>
              Headers_get (res_headers hit) n =
              Headers_get (Headers_of_object (entry_headers ?e)) n"
    by blast
  from rest cookie_facts(5) have "Headers_get (res_headers hit) ''set-cookie'' =
      Headers_get (Headers_of_object (entry_headers ?e)) ''set-cookie''"
    by blast
  with cookie_facts(4) have lost: "Headers_get (res_headers hit) ''set-cookie'' = Some ''b=2''"
    by simp
  from first run s lost h6 h7 cookie_facts(1) show ?thesis
    by auto
qed

section \<open>Redirect locations\<close>

lemma find_first_prefix: "find_first (p @ r) p = Some ([], r)"
proof (cases "p @ r")
  case Nil
  then show ?thesis by simp
next
  case (Cons a list)
  have "prefix p (a # list)" and "drop (length p) (a # list) = r"
    using Cons [symmetric] by simp_all
  then show ?thesis
    using Cons by simp
qed

lemma GetSubstitution_plain:
  "CHR ''$'' \<notin> set t \<Longrightarrow> GetSubstitution m b a t = t"
  by (induction m b a t rule: GetSubstitution.induct) auto

lemma replace_prefix:
  "CHR ''$'' \<notin> set t \<Longrightarrow> replace (p @ r) p t = t @ r"
  by (simp add: replace_def find_first_prefix GetSubstitution_plain)

lemma find_first_None: "find_first s p = None \<longleftrightarrow> \<not> includes_str s p"
  by (induction s) (auto split: option.splits)

lemma replace_absent: "\<not> includes_str s p \<Longrightarrow> replace s p t = s"
  by (simp add: replace_def find_first_None [symmetric])

lemma includes_str_Nil: "includes_str s []"
  by (cases s) auto

lemma includes_str_append_right: "includes_str s p \<Longrightarrow> includes_str (s @ r) p"
proof (induction s)
  case Nil
  then show ?case by (simp add: includes_str_Nil)
next
  case (Cons a s)
  from Cons.prems have "prefix p (a # s) \<or> includes_str s p"
    by simp
  then show ?case
  proof
    assume "prefix p (a # s)"
    then have "prefix p ((a # s) @ r)"
      by (rule prefix_prefix)
    then show ?thesis by simp
  next
    assume "includes_str s p"
    with Cons.IH show ?thesis by simp
  qed
qed

lemma includes_str_append_left: "includes_str s p \<Longrightarrow> includes_str (q @ s) p"
  by (induction q) auto

lemma includes_str_self: "includes_str p p"
  by (cases p) auto

lemma includes_str_mid: "includes_str (q @ p @ r) p"
  by (intro includes_str_append_left includes_str_append_right includes_str_self)

text \<open>
  What the function computes when the request URL parses, \<open>mirror\<close> being the scheme and
  host read from it. The first occurrence of \<open>PROTOCOL://ORIGIN_SERVER\<close> in an absolute
  location is replaced by \<open>mirror\<close>: where the location begins with it (and \<open>mirror\<close> has no
  dollar sign, which \<^verbatim>\<open>replace\<close> reads as a pattern), the rest follows untouched; where
  it does not occur, the location comes back as it is. A location that is not absolute
  comes back behind \<open>mirror\<close>, with a \<open>/\<close> between them when it does not begin with one.
\<close>

lemma fixRedirectUrl_cases:
  assumes url: "URL (req_url c) = Some u"
    and mirror: "mirror = replace (url_protocol u) '':'' [] @ ''://'' @ url_host u"
  shows "(PROTOCOL cfg \<in> {''http'', ''https''} \<and> CHR ''$'' \<notin> set mirror \<longrightarrow>
            fixRedirectUrl URL cfg (Str (PROTOCOL cfg @ ''://'' @ ORIGIN_SERVER cfg @ rest)) c =
              Inr (Some (mirror @ rest))) \<and>
         ((startsWith loc ''http://'' \<or> startsWith loc ''https://'') \<and>
            \<not> includes_str loc (PROTOCOL cfg @ ''://'' @ ORIGIN_SERVER cfg) \<longrightarrow>
            fixRedirectUrl URL cfg (Str loc) c = Inr (Some loc)) \<and>
         (loc \<noteq> [] \<and> \<not> startsWith loc ''http://'' \<and> \<not> startsWith loc ''https://'' \<longrightarrow>
            fixRedirectUrl URL cfg (Str loc) c =
              Inr (Some (mirror @ (if startsWith loc ''/'' then loc else ''/'' @ loc))))"
proof (intro conjI impI)
  assume a: "PROTOCOL cfg \<in> {''http'', ''https''} \<and> CHR ''$'' \<notin> set mirror"
  let ?loc = "PROTOCOL cfg @ ''://'' @ ORIGIN_SERVER cfg @ rest"
  have abs: "startsWith ?loc ''http://'' \<or> startsWith ?loc ''https://''"
    using a by (auto simp: startsWith_def)
  have inc: "includes_str ?loc (ORIGIN_SERVER cfg)"
    using includes_str_mid [of "PROTOCOL cfg @ ''://''" "ORIGIN_SERVER cfg" rest] by simp
  have rep: "replace ?loc (PROTOCOL cfg @ ''://'' @ ORIGIN_SERVER cfg) mirror = mirror @ rest"
    using a replace_prefix [of mirror "PROTOCOL cfg @ ''://'' @ ORIGIN_SERVER cfg" rest] by simp
  have ne: "?loc \<noteq> []" by simp
  show "fixRedirectUrl URL cfg (Str ?loc) c = Inr (Some (mirror @ rest))"
    using url abs inc rep ne unfolding fixRedirectUrl_def mirror
    by (simp add: Let_def)
next
  assume a: "(startsWith loc ''http://'' \<or> startsWith loc ''https://'') \<and>
            \<not> includes_str loc (PROTOCOL cfg @ ''://'' @ ORIGIN_SERVER cfg)"
  then have "loc \<noteq> []"
    by (auto simp: startsWith_def)
  moreover have "replace loc (PROTOCOL cfg @ ''://'' @ ORIGIN_SERVER cfg) t = loc" for t
    using a by (simp add: replace_absent)
  ultimately show "fixRedirectUrl URL cfg (Str loc) c = Inr (Some loc)"
    using a url by (simp add: fixRedirectUrl_def Let_def)
next
  assume a: "loc \<noteq> [] \<and> \<not> startsWith loc ''http://'' \<and> \<not> startsWith loc ''https://''"
  with url show "fixRedirectUrl URL cfg (Str loc) c =
              Inr (Some (mirror @ (if startsWith loc ''/'' then loc else ''/'' @ loc)))"
    by (simp add: fixRedirectUrl_def Let_def mirror)
qed

text \<open>
  Claim C5 says that an absolute location on the origin host has its scheme and host
  replaced by the mirror's, and that an absolute location on any other host comes back
  unchanged. The code tests \<^verbatim>\<open>location.includes(ORIGIN_SERVER)\<close> and then replaces the
  text \<open>PROTOCOL://ORIGIN_SERVER\<close> where it first occurs. With the origin \<open>hono.dev\<close>
  reached over \<open>https\<close> and the mirror at \<open>http://mirror.local\<close>: the location
  \<open>http://hono.dev/x\<close>, on the origin host under the other scheme, comes back unchanged
  and still points at the origin; a location on another host that carries the origin's
  address in its query string is changed there; and a location on the host
  \<open>hono.dev.evil.example\<close> is rewritten to the host \<open>mirror.local.evil.example\<close>.
\<close>

theorem fixRedirectUrl_misses_origin_urls:
  "fixRedirectUrl sample_URL default_config (Str ''http://hono.dev/x'')
     (get_request ''mirror.local'' ''/old'' []) = Inr (Some ''http://hono.dev/x'') \<and>
   fixRedirectUrl sample_URL default_config (Str ''https://other.example/go?to=https://hono.dev/x'')
     (get_request ''mirror.local'' ''/old'' []) =
     Inr (Some ''https://other.example/go?to=http://mirror.local/x'') \<and>
   fixRedirectUrl sample_URL default_config (Str ''https://hono.dev.evil.example/x'')
     (get_request ''mirror.local'' ''/old'' []) =
     Inr (Some ''http://mirror.local.evil.example/x'')"
  by code_simp

lemma logger_guard:
  "loggerMiddleware URL c next = Inr x \<Longrightarrow> URL (req_url c) \<noteq> None"
  by (auto simp: loggerMiddleware_def split: option.splits)

lemma logger_stops:
  "URL (req_url c) = None \<Longrightarrow> loggerMiddleware URL c next = Inl TypeError"
  by (simp add: loggerMiddleware_def)

lemma fixRedirectUrl_parse_outside_try:
  assumes "truthy_value location" and "URL (req_url c) = None"
  shows "fixRedirectUrl URL cfg location c = Inl TypeError"
  using assms by (simp add: fixRedirectUrl_def)




section \<open>Outbound request headers\<close>

lemma assign_distinct: "distinct (map fst obj) \<Longrightarrow> distinct (map fst (assign obj k v))"
  by (simp add: assign_def distinct_update)

lemma assign_keys: "fst ` set (assign obj k v) \<subseteq> insert k (fst ` set obj)"
  by (auto simp: assign_def dom_update)

lemma lower_host: "toLowerCase ''host'' = ''host''"
  by code_simp

lemma loop_keys:
  assumes "\<forall>k \<in> fst ` set es. toLowerCase k = k"
    and "distinct (map fst obj)" and "\<forall>k \<in> fst ` set obj. toLowerCase k = k"
  shows "distinct (map fst (processHeaders_loop cfg es obj)) \<and>
         (\<forall>k \<in> fst ` set (processHeaders_loop cfg es obj). toLowerCase k = k)"
  using assms
proof (induction es arbitrary: obj)
  case Nil
  then show ?case by simp
next
  case (Cons a es)
  obtain key v where a: "a = (key, v)" by (cases a) auto
  have es: "\<forall>k \<in> fst ` set es. toLowerCase k = k" and key: "toLowerCase key = key"
    using Cons.prems(1) a by auto
  have step: "distinct (map fst (assign obj k w)) \<and>
      (\<forall>k' \<in> fst ` set (assign obj k w). toLowerCase k' = k')" if k: "toLowerCase k = k" for k w
  proof -
    have "toLowerCase k' = k'" if "k' \<in> fst ` set (assign obj k w)" for k'
    proof -
      from that assign_keys [of obj k w] have "k' = k \<or> k' \<in> fst ` set obj"
        by blast
      with k Cons.prems(3) show ?thesis
        by blast
    qed
    with assign_distinct [OF Cons.prems(2)] show ?thesis
      by blast
  qed
  consider
    (host) "processHeaders_loop cfg (a # es) obj =
            processHeaders_loop cfg es (assign obj ''host'' (ORIGIN_SERVER cfg))"
  | (copy) "processHeaders_loop cfg (a # es) obj = processHeaders_loop cfg es (assign obj key v)"
  | (drop) "processHeaders_loop cfg (a # es) obj = processHeaders_loop cfg es obj"
    unfolding a by (simp add: Let_def) metis
  then show ?case
  proof cases
    case host
    from step [OF lower_host, of "ORIGIN_SERVER cfg"] show ?thesis
      unfolding host by (intro Cons.IH [OF es]) simp_all
  next
    case copy
    from step [OF key, of v] show ?thesis
      unfolding copy by (intro Cons.IH [OF es]) simp_all
  next
    case drop
    from Cons.prems(2,3) show ?thesis
      unfolding drop by (intro Cons.IH [OF es])
  qed
qed

lemma loop_map_of:
  assumes "\<forall>k \<in> fst ` set es. toLowerCase k = k"
  shows "map_of (processHeaders_loop cfg es obj) n =
     (if n = ''host''
      then (if ''host'' \<in> fst ` set es then Some (ORIGIN_SERVER cfg) else map_of obj ''host'')
      else if n \<in> set [''accept-encoding'', ''connection'', ''keep-alive'', ''content-length'']
              \<or> n = ''__proto__''
      then map_of obj n
      else (case map_of (rev es) n of None \<Rightarrow> map_of obj n | Some v \<Rightarrow> Some v))"
  using assms
proof (induction es arbitrary: obj n)
  case Nil
  show ?case by simp
next
  case (Cons a es)
  obtain key v where a: "a = (key, v)" by (cases a) auto
  have es: "\<forall>k \<in> fst ` set es. toLowerCase k = k" and key: "toLowerCase key = key"
    using Cons.prems(1) a by auto
  note IH = Cons.IH [OF es]
  show ?case
    unfolding a
    by (simp add: IH key Let_def assign_def update_conv' map_add_def split: option.splits)
qed

text \<open>
  What holds of the headers that \<open>processHeaders\<close> builds: \<open>accept-encoding\<close>,
  \<open>connection\<close>, \<open>keep-alive\<close> and \<open>content-length\<close> are absent, whatever the case of their
  letters in the request; \<open>host\<close> is the configured origin host whenever the request has a
  \<open>host\<close> header; and every name other than these, \<open>__proto__\<close> and \<open>set-cookie\<close> reads in the
  outbound headers as it reads in the request.
\<close>

lemma processHeaders_reads:
  "(toLowerCase name \<in> {''accept-encoding'', ''connection'', ''keep-alive'', ''content-length''} \<longrightarrow>
      Headers_get (processHeaders cfg h) name = None) \<and>
   Headers_get (processHeaders cfg h) ''host'' =
     (if Headers_get h ''host'' = None then None else Some (ORIGIN_SERVER cfg)) \<and>
   (toLowerCase name \<notin> {''accept-encoding'', ''connection'', ''keep-alive'', ''content-length'',
                           ''host'', ''__proto__'', ''set-cookie''} \<longrightarrow>
      Headers_get (processHeaders cfg h) name = Headers_get h name)"
proof -
  let ?es = "Headers_entries h"
  let ?out = "processHeaders_loop cfg ?es []"
  have es: "\<forall>k \<in> fst ` set ?es. toLowerCase k = k"
    using Headers_entries_keys [of _ _ h] by auto
  have "distinct (map fst ?out) \<and> (\<forall>k \<in> fst ` set ?out. toLowerCase k = k)"
    using es by (intro loop_keys) simp_all
  then have get: "Headers_get ?out x = map_of ?out (toLowerCase x)" for x
    by (intro Headers_get_object) auto
  note out = loop_map_of [OF es, of cfg "[]"]
  have host_in: "''host'' \<in> fst ` set ?es \<longleftrightarrow> Headers_get h ''host'' \<noteq> None"
  proof -
    have "''host'' \<in> fst ` set ?es \<longleftrightarrow> map_of (rev ?es) ''host'' \<noteq> None"
      by (simp add: map_of_eq_None_iff)
    also have "map_of (rev ?es) ''host'' = Headers_get h ''host''"
      by (intro map_of_rev_entries_get) (simp_all add: lower_host)
    finally show ?thesis .
  qed
  have dropped: "Headers_get ?out name = None"
    if "toLowerCase name \<in> {''accept-encoding'', ''connection'', ''keep-alive'', ''content-length''}"
    using that by (auto simp: get out)
  have host: "Headers_get ?out ''host'' =
      (if Headers_get h ''host'' = None then None else Some (ORIGIN_SERVER cfg))"
    using host_in by (simp add: get out lower_host)
  have other: "Headers_get ?out name = Headers_get h name"
    if n: "toLowerCase name \<notin> {''accept-encoding'', ''connection'', ''keep-alive'', ''content-length'',
                           ''host'', ''__proto__'', ''set-cookie''}"
  proof -
    have "map_of (rev ?es) (toLowerCase name) = Headers_get h (toLowerCase name)"
      using n by (intro map_of_rev_entries_get) (simp_all add: toLowerCase_idem)
    then have "map_of ?out (toLowerCase name) = Headers_get h name"
      using n by (simp add: out Headers_get_lower split: option.splits)
    then show ?thesis
      by (simp add: get)
  qed
  show ?thesis
    using dropped host other by (simp add: processHeaders_def Headers_of_object_def)
qed

text \<open>
  Claim C7 says that the outbound headers hold every header of the request but the four
  dropped ones. The loop copies a header with \<^verbatim>\<open>headers[key] = value\<close> on a plain object,
  and for the key \<open>__proto__\<close> that assignment creates no property. A request with the
  headers \<open>host\<close>, \<open>__proto__\<close> and \<open>user-agent\<close>: the header \<open>__proto__\<close> is in the request
  and is none of the four dropped names, yet it is absent from the outbound headers,
  while \<open>user-agent\<close> is copied and \<open>host\<close> is rewritten.
\<close>

theorem processHeaders_drops_proto:
  "Headers_get [(''host'', ''mirror.local''), (''__proto__'', ''x''), (''user-agent'', ''curl/8'')]
     ''__proto__'' = Some ''x'' \<and>
   toLowerCase ''__proto__'' \<notin> {''accept-encoding'', ''connection'', ''keep-alive'', ''content-length''} \<and>
   Headers_get (processHeaders default_config
      [(''host'', ''mirror.local''), (''__proto__'', ''x''), (''user-agent'', ''curl/8'')])
     ''__proto__'' = None \<and>
   Headers_get (processHeaders default_config
      [(''host'', ''mirror.local''), (''__proto__'', ''x''), (''user-agent'', ''curl/8'')])
     ''user-agent'' = Some ''curl/8'' \<and>
   Headers_get (processHeaders default_config
      [(''host'', ''mirror.local''), (''__proto__'', ''x''), (''user-agent'', ''curl/8'')])
     ''host'' = Some ''hono.dev''"
  by code_simp

end
